theory Spec2Isabelle
  imports Main
begin

section \<open>The transaction bridge of cozorocks (\<^verbatim>\<open>cozorocks/bridge/tx.h\<close>)\<close>

text \<open>
  \<^verbatim>\<open>TxBridge\<close> is a thin handle over the transaction objects of the storage engine.
  The handle is embedded as a record whose pointer fields are options (\<open>None\<close> is
  \<^verbatim>\<open>nullptr\<close>); every member function is a HOL function on that record. Dereferencing
  a null pointer is undefined behaviour in the source and is the value \<open>Inl NullDereference\<close>
  here. The storage engine is not part of the bridge: it is a parameter \<open>E\<close> of every
  function that calls into it, and each transaction keeps the list of the engine primitives
  invoked on it.
\<close>

subsection \<open>Data of the caller boundary and of the engine boundary\<close>

type_synonym bytes = string

type_synonym db_ptr = nat

type_synonym ColumnFamilyHandle = nat

datatype StatusCode = kOk | kNotFound | kCorruption | kIOError | kBusy | kTimedOut | kTryAgain

text \<open>The engine's native status and the caller's status sink.\<close>

record Status =
  s_code :: StatusCode
  s_message :: string

record RdbStatus =
  r_code :: StatusCode
  r_message :: string

record WriteOptions =
  wo_sync :: bool
  wo_disableWAL :: bool

text \<open>The fields of the engine's read options that the bridge touches.\<close>

record ReadOptions =
  ro_verify_checksums :: bool
  ro_fill_cache :: bool
  ro_ignore_range_deletions :: bool

record OptimisticTransactionOptions =
  o_set_snapshot :: bool

record TransactionOptions =
  p_set_snapshot :: bool

datatype tx_options =
  OptimisticOpts OptimisticTransactionOptions
| PessimisticOpts TransactionOptions

text \<open>The primitives of the engine's \<^verbatim>\<open>Transaction\<close> that the bridge invokes, with the
  arguments it passes.\<close>

datatype engine_call =
  Get ReadOptions bytes
| GetForUpdate ReadOptions ColumnFamilyHandle bytes
| Put bytes bytes
| Delete bytes
| Commit
| Rollback
| RollbackToSavePoint
| PopSavePoint
| SetSavePoint
| SetSnapshot
| ClearSnapshot

text \<open>
  The engine, as far as the bridge drives it: the values of freshly constructed option
  objects, the default column family of a store, the creation of a transaction on a store,
  and the reaction of a transaction (of engine state \<open>'e\<close>) to one primitive: the native
  status, the contents left in the value buffer handed in, and the next engine state.
\<close>

record 'e Engine =
  new_WriteOptions :: WriteOptions
  new_ReadOptions :: ReadOptions
  new_OptimisticTransactionOptions :: OptimisticTransactionOptions
  new_TransactionOptions :: TransactionOptions
  DefaultColumnFamily :: "db_ptr \<Rightarrow> ColumnFamilyHandle"
  BeginTransaction :: "db_ptr \<Rightarrow> WriteOptions \<Rightarrow> tx_options \<Rightarrow> 'e"
  perform :: "'e \<Rightarrow> engine_call \<Rightarrow> (Status \<times> bytes) \<times> 'e"

record 'e Transaction =
  tx_state :: 'e
  tx_log :: "engine_call list"

definition invoke :: "'e Engine \<Rightarrow> 'e Transaction \<Rightarrow> engine_call \<Rightarrow> (Status \<times> bytes) \<times> 'e Transaction" where
  "invoke E t c =
     (case perform E (tx_state t) c of
        (reply, e') \<Rightarrow> (reply, \<lparr>tx_state = e', tx_log = tx_log t @ [c]\<rparr>))"

datatype fault = NullDereference | PreconditionViolation

subsection \<open>Helpers of the repository that are declared in other headers\<close>

text \<open>Modelled from the spec: \<^verbatim>\<open>convert_slice\<close> (\<^verbatim>\<open>slice.h\<close>, not among the sources). Keys and
  values are opaque byte sequences, arbitrary bytes, zero length permitted; the conversion
  is a view of the same bytes.\<close>

definition convert_slice :: "bytes \<Rightarrow> bytes" where
  "convert_slice b = b"

text \<open>Modelled from the spec: \<^verbatim>\<open>write_status\<close> (\<^verbatim>\<open>status.h\<close>, not among the sources). The
  engine-native outcome is translated into the status sink verbatim, code and message.\<close>

definition write_status :: "Status \<Rightarrow> RdbStatus \<Rightarrow> RdbStatus" where
  "write_status s status = status\<lparr>r_code := s_code s, r_message := s_message s\<rparr>"

subsection \<open>The handle\<close>

record 'e TxBridge =
  odb :: "db_ptr option"
  tdb :: "db_ptr option"
  tx :: "'e Transaction option"
  w_opts :: "WriteOptions option"
  r_opts :: "ReadOptions option"
  o_tx_opts :: "OptimisticTransactionOptions option"
  p_tx_opts :: "TransactionOptions option"

text \<open>The two constructors are overloads told apart by the static type of the store
  pointer; the pointer itself may be null.\<close>

datatype store_ptr =
  OptimisticTransactionDB "db_ptr option"
| TransactionDB "db_ptr option"

definition set_ignore_range_deletions :: "'e TxBridge \<Rightarrow> 'e TxBridge" where
  "set_ignore_range_deletions h =
     h\<lparr>r_opts := map_option (\<lambda>r. r\<lparr>ro_ignore_range_deletions := True\<rparr>) (r_opts h)\<rparr>"

fun TxBridge_new :: "'e Engine \<Rightarrow> store_ptr \<Rightarrow> 'e TxBridge" where
  "TxBridge_new E (OptimisticTransactionDB odb') =
     set_ignore_range_deletions
       \<lparr>odb = odb', tdb = None, tx = None,
        w_opts = Some (new_WriteOptions E),
        r_opts = Some (new_ReadOptions E),
        o_tx_opts = Some (new_OptimisticTransactionOptions E),
        p_tx_opts = None\<rparr>"
| "TxBridge_new E (TransactionDB tdb') =
     set_ignore_range_deletions
       \<lparr>odb = None, tdb = tdb', tx = None,
        w_opts = Some (new_WriteOptions E),
        r_opts = Some (new_ReadOptions E),
        o_tx_opts = None,
        p_tx_opts = Some (new_TransactionOptions E)\<rparr>"

definition get_w_opts :: "'e TxBridge \<Rightarrow> fault + WriteOptions" where
  "get_w_opts h = (case w_opts h of None \<Rightarrow> Inl NullDereference | Some w \<Rightarrow> Inr w)"

definition verify_checksums :: "bool \<Rightarrow> 'e TxBridge \<Rightarrow> fault + 'e TxBridge" where
  "verify_checksums val h =
     (case r_opts h of
        None \<Rightarrow> Inl NullDereference
      | Some r \<Rightarrow> Inr (h\<lparr>r_opts := Some (r\<lparr>ro_verify_checksums := val\<rparr>)\<rparr>))"

definition fill_cache :: "bool \<Rightarrow> 'e TxBridge \<Rightarrow> fault + 'e TxBridge" where
  "fill_cache val h =
     (case r_opts h of
        None \<Rightarrow> Inl NullDereference
      | Some r \<Rightarrow> Inr (h\<lparr>r_opts := Some (r\<lparr>ro_fill_cache := val\<rparr>)\<rparr>))"

text \<open>The iterator bridge is constructed on the transaction the handle owns.\<close>

definition iterator :: "'e TxBridge \<Rightarrow> fault + 'e Transaction" where
  "iterator h = (case tx h of None \<Rightarrow> Inl NullDereference | Some t \<Rightarrow> Inr t)"

definition set_snapshot :: "'e Engine \<Rightarrow> bool \<Rightarrow> 'e TxBridge \<Rightarrow> 'e TxBridge" where
  "set_snapshot E val h =
     (case tx h of
        Some t \<Rightarrow> (if val then h\<lparr>tx := Some (snd (invoke E t SetSnapshot))\<rparr> else h)
      | None \<Rightarrow>
          (case o_tx_opts h of
             Some oo \<Rightarrow> h\<lparr>o_tx_opts := Some (oo\<lparr>o_set_snapshot := val\<rparr>)\<rparr>
           | None \<Rightarrow>
               (case p_tx_opts h of
                  Some po \<Rightarrow> h\<lparr>p_tx_opts := Some (po\<lparr>p_set_snapshot := val\<rparr>)\<rparr>
                | None \<Rightarrow> h)))"

definition clear_snapshot :: "'e Engine \<Rightarrow> 'e TxBridge \<Rightarrow> fault + 'e TxBridge" where
  "clear_snapshot E h =
     (case tx h of
        None \<Rightarrow> Inl NullDereference
      | Some t \<Rightarrow> Inr (h\<lparr>tx := Some (snd (invoke E t ClearSnapshot))\<rparr>))"

definition get_db :: "'e TxBridge \<Rightarrow> db_ptr option" where
  "get_db h = (if tdb h \<noteq> None then tdb h else odb h)"

text \<open>Modelled from the spec: \<^verbatim>\<open>start\<close> is declared in the header and defined in a file that
  is not among the sources. It creates the owned transaction from the backing store,
  passing the write-options and the mode-specific transaction-options; without a backing
  store there is nothing to create the transaction from.\<close>

definition start :: "'e Engine \<Rightarrow> 'e TxBridge \<Rightarrow> fault + 'e TxBridge" where
  "start E h =
     (case w_opts h of
        None \<Rightarrow> Inl NullDereference
      | Some w \<Rightarrow>
          (case tdb h of
             Some db \<Rightarrow>
               (case p_tx_opts h of
                  None \<Rightarrow> Inl NullDereference
                | Some po \<Rightarrow>
                    Inr (h\<lparr>tx := Some \<lparr>tx_state = BeginTransaction E db w (PessimisticOpts po),
                                         tx_log = []\<rparr>\<rparr>))
           | None \<Rightarrow>
               (case odb h of
                  Some db \<Rightarrow>
                    (case o_tx_opts h of
                       None \<Rightarrow> Inl NullDereference
                     | Some oo \<Rightarrow>
                         Inr (h\<lparr>tx := Some \<lparr>tx_state = BeginTransaction E db w (OptimisticOpts oo),
                                              tx_log = []\<rparr>\<rparr>))
                | None \<Rightarrow> Inl PreconditionViolation)))"

text \<open>\<^verbatim>\<open>get\<close> returns the owning pointer to a fresh value buffer (\<open>Some\<close> of the contents
  the engine left in it), the status sink and the handle.\<close>

definition get :: "'e Engine \<Rightarrow> bytes \<Rightarrow> bool \<Rightarrow> RdbStatus \<Rightarrow> 'e TxBridge \<Rightarrow>
    fault + (bytes option \<times> RdbStatus \<times> 'e TxBridge)" where
  "get E key for_update status h =
     (let key' = convert_slice key in
      case tx h of
        None \<Rightarrow> Inl NullDereference
      | Some t \<Rightarrow>
          (case r_opts h of
             None \<Rightarrow> Inl NullDereference
           | Some ro \<Rightarrow>
               if for_update then
                 (case get_db h of
                    None \<Rightarrow> Inl NullDereference
                  | Some db \<Rightarrow>
                      (case invoke E t (GetForUpdate ro (DefaultColumnFamily E db) key') of
                         ((s, ret), t') \<Rightarrow>
                           Inr (Some ret, write_status s status, h\<lparr>tx := Some t'\<rparr>)))
               else
                 (case invoke E t (Get ro key') of
                    ((s, ret), t') \<Rightarrow>
                      Inr (Some ret, write_status s status, h\<lparr>tx := Some t'\<rparr>))))"

text \<open>Six members have one body, \<^verbatim>\<open>write_status(tx->P(...), status)\<close>, for a primitive \<open>P\<close> of
  the transaction: the transaction pointer is dereferenced, the primitive is invoked and its
  status is written to the sink.\<close>

definition forward :: "'e Engine \<Rightarrow> engine_call \<Rightarrow> RdbStatus \<Rightarrow> 'e TxBridge \<Rightarrow>
    fault + (RdbStatus \<times> 'e TxBridge)" where
  "forward E c status h =
     (case tx h of
        None \<Rightarrow> Inl NullDereference
      | Some t \<Rightarrow>
          (case invoke E t c of
             ((s, _), t') \<Rightarrow> Inr (write_status s status, h\<lparr>tx := Some t'\<rparr>)))"

definition put :: "'e Engine \<Rightarrow> bytes \<Rightarrow> bytes \<Rightarrow> RdbStatus \<Rightarrow> 'e TxBridge \<Rightarrow>
    fault + (RdbStatus \<times> 'e TxBridge)" where
  "put E key val status h = forward E (Put (convert_slice key) (convert_slice val)) status h"

definition del :: "'e Engine \<Rightarrow> bytes \<Rightarrow> RdbStatus \<Rightarrow> 'e TxBridge \<Rightarrow>
    fault + (RdbStatus \<times> 'e TxBridge)" where
  "del E key status h = forward E (Delete (convert_slice key)) status h"

definition commit :: "'e Engine \<Rightarrow> RdbStatus \<Rightarrow> 'e TxBridge \<Rightarrow> fault + (RdbStatus \<times> 'e TxBridge)" where
  "commit E status h = forward E Commit status h"

definition rollback :: "'e Engine \<Rightarrow> RdbStatus \<Rightarrow> 'e TxBridge \<Rightarrow> fault + (RdbStatus \<times> 'e TxBridge)" where
  "rollback E status h = forward E Rollback status h"

definition rollback_to_savepoint :: "'e Engine \<Rightarrow> RdbStatus \<Rightarrow> 'e TxBridge \<Rightarrow>
    fault + (RdbStatus \<times> 'e TxBridge)" where
  "rollback_to_savepoint E status h = forward E RollbackToSavePoint status h"

definition pop_savepoint :: "'e Engine \<Rightarrow> RdbStatus \<Rightarrow> 'e TxBridge \<Rightarrow>
    fault + (RdbStatus \<times> 'e TxBridge)" where
  "pop_savepoint E status h = forward E PopSavePoint status h"

definition set_savepoint :: "'e Engine \<Rightarrow> 'e TxBridge \<Rightarrow> fault + 'e TxBridge" where
  "set_savepoint E h =
     (case tx h of
        None \<Rightarrow> Inl NullDereference
      | Some t \<Rightarrow> Inr (h\<lparr>tx := Some (snd (invoke E t SetSavePoint))\<rparr>))"

subsection \<open>Callers: sequences of member calls\<close>

text \<open>
  A caller holds a handle and calls its members one after the other. \<open>call\<close> names a
  member call with its arguments; \<open>Assign_w_opts\<close> is an assignment through the reference
  that \<^verbatim>\<open>get_w_opts\<close> returns. \<open>step\<close> runs one call and keeps the handle, \<open>run\<close> runs a
  sequence and stops at the first fault. The states a handle can be in are the results of
  \<open>run\<close> on a freshly constructed handle.
\<close>

datatype call =
  Verify_checksums bool
| Fill_cache bool
| Set_snapshot bool
| Clear_snapshot
| Start
| Get_key bytes bool
| Put_key bytes bytes
| Del_key bytes
| Commit_tx
| Rollback_tx
| Rollback_to_savepoint
| Pop_savepoint
| Set_savepoint
| Iterator
| Assign_w_opts WriteOptions

definition blank_status :: RdbStatus where
  "blank_status = \<lparr>r_code = kOk, r_message = []\<rparr>"

definition handle_of :: "fault + (RdbStatus \<times> 'e TxBridge) \<Rightarrow> fault + 'e TxBridge" where
  "handle_of r = (case r of Inl f \<Rightarrow> Inl f | Inr (status, h) \<Rightarrow> Inr h)"

fun step :: "'e Engine \<Rightarrow> call \<Rightarrow> 'e TxBridge \<Rightarrow> fault + 'e TxBridge" where
  "step E (Verify_checksums val) h = verify_checksums val h"
| "step E (Fill_cache val) h = fill_cache val h"
| "step E (Set_snapshot val) h = Inr (set_snapshot E val h)"
| "step E Clear_snapshot h = clear_snapshot E h"
| "step E Start h = start E h"
| "step E (Get_key key for_update) h =
     (case get E key for_update blank_status h of
        Inl f \<Rightarrow> Inl f
      | Inr (ret, status, h') \<Rightarrow> Inr h')"
| "step E (Put_key key val) h = handle_of (put E key val blank_status h)"
| "step E (Del_key key) h = handle_of (del E key blank_status h)"
| "step E Commit_tx h = handle_of (commit E blank_status h)"
| "step E Rollback_tx h = handle_of (rollback E blank_status h)"
| "step E Rollback_to_savepoint h = handle_of (rollback_to_savepoint E blank_status h)"
| "step E Pop_savepoint h = handle_of (pop_savepoint E blank_status h)"
| "step E Set_savepoint h = set_savepoint E h"
| "step E Iterator h = (case iterator h of Inl f \<Rightarrow> Inl f | Inr it \<Rightarrow> Inr h)"
| "step E (Assign_w_opts w) h =
     (case get_w_opts h of Inl f \<Rightarrow> Inl f | Inr old \<Rightarrow> Inr (h\<lparr>w_opts := Some w\<rparr>))"

fun run :: "'e Engine \<Rightarrow> call list \<Rightarrow> 'e TxBridge \<Rightarrow> fault + 'e TxBridge" where
  "run E [] h = Inr h"
| "run E (c # cs) h = (case step E c h of Inl f \<Rightarrow> Inl f | Inr h' \<Rightarrow> run E cs h')"

subsection \<open>A reference engine\<close>

text \<open>
  Modelled from the spec: the primitives of the engine's transaction (the storage engine is
  not among the sources), for one transaction with no concurrent one. A put buffers a write
  inside the transaction, visible to subsequent reads on the same transaction; a delete
  buffers a deletion marker; a get returns the value if found and not-found otherwise; the
  savepoints are a LIFO stack of markers of the buffered state, and rolling back to or
  popping a marker fails on the empty stack; rollback discards the buffered operations;
  commit finalises them.
\<close>

record ref_tx =
  rt_base :: "(bytes \<times> bytes) list"
  rt_buffer :: "(bytes \<times> bytes option) list"
  rt_savepoints :: "(bytes \<times> bytes option) list list"
  rt_snapshot :: bool
  rt_tracked :: "bytes list"

definition ok_status :: Status where
  "ok_status = \<lparr>s_code = kOk, s_message = []\<rparr>"

definition not_found_status :: Status where
  "not_found_status = \<lparr>s_code = kNotFound, s_message = ''NotFound: ''\<rparr>"

definition ref_lookup :: "ref_tx \<Rightarrow> bytes \<Rightarrow> Status \<times> bytes" where
  "ref_lookup t k =
     (case map_of (rt_buffer t) k of
        Some (Some v) \<Rightarrow> (ok_status, v)
      | Some None \<Rightarrow> (not_found_status, [])
      | None \<Rightarrow>
          (case map_of (rt_base t) k of
             Some v \<Rightarrow> (ok_status, v)
           | None \<Rightarrow> (not_found_status, [])))"

definition ref_apply :: "(bytes \<times> bytes option) \<Rightarrow> (bytes \<times> bytes) list \<Rightarrow> (bytes \<times> bytes) list" where
  "ref_apply w base =
     (case snd w of
        Some v \<Rightarrow> (fst w, v) # filter (\<lambda>kv. fst kv \<noteq> fst w) base
      | None \<Rightarrow> filter (\<lambda>kv. fst kv \<noteq> fst w) base)"

fun ref_perform :: "ref_tx \<Rightarrow> engine_call \<Rightarrow> (Status \<times> bytes) \<times> ref_tx" where
  "ref_perform t (Get ro k) = (ref_lookup t k, t)"
| "ref_perform t (GetForUpdate ro cf k) = (ref_lookup t k, t\<lparr>rt_tracked := k # rt_tracked t\<rparr>)"
| "ref_perform t (Put k v) = ((ok_status, []), t\<lparr>rt_buffer := (k, Some v) # rt_buffer t\<rparr>)"
| "ref_perform t (Delete k) = ((ok_status, []), t\<lparr>rt_buffer := (k, None) # rt_buffer t\<rparr>)"
| "ref_perform t Commit =
     ((ok_status, []),
      t\<lparr>rt_base := foldr ref_apply (rt_buffer t) (rt_base t), rt_buffer := [],
        rt_savepoints := []\<rparr>)"
| "ref_perform t Rollback = ((ok_status, []), t\<lparr>rt_buffer := [], rt_savepoints := []\<rparr>)"
| "ref_perform t RollbackToSavePoint =
     (case rt_savepoints t of
        [] \<Rightarrow> ((not_found_status, []), t)
      | b # bs \<Rightarrow> ((ok_status, []), t\<lparr>rt_buffer := b, rt_savepoints := bs\<rparr>))"
| "ref_perform t PopSavePoint =
     (case rt_savepoints t of
        [] \<Rightarrow> ((not_found_status, []), t)
      | b # bs \<Rightarrow> ((ok_status, []), t\<lparr>rt_savepoints := bs\<rparr>))"
| "ref_perform t SetSavePoint = ((ok_status, []), t\<lparr>rt_savepoints := rt_buffer t # rt_savepoints t\<rparr>)"
| "ref_perform t SetSnapshot = ((ok_status, []), t\<lparr>rt_snapshot := True\<rparr>)"
| "ref_perform t ClearSnapshot = ((ok_status, []), t\<lparr>rt_snapshot := False\<rparr>)"

definition ref_snapshot_armed :: "tx_options \<Rightarrow> bool" where
  "ref_snapshot_armed opts =
     (case opts of OptimisticOpts oo \<Rightarrow> o_set_snapshot oo | PessimisticOpts po \<Rightarrow> p_set_snapshot po)"

definition ref_engine :: "(db_ptr \<Rightarrow> (bytes \<times> bytes) list) \<Rightarrow> ref_tx Engine" where
  "ref_engine stores =
     \<lparr>new_WriteOptions = \<lparr>wo_sync = False, wo_disableWAL = False\<rparr>,
      new_ReadOptions =
        \<lparr>ro_verify_checksums = True, ro_fill_cache = True, ro_ignore_range_deletions = False\<rparr>,
      new_OptimisticTransactionOptions = \<lparr>o_set_snapshot = False\<rparr>,
      new_TransactionOptions = \<lparr>p_set_snapshot = False\<rparr>,
      DefaultColumnFamily = (\<lambda>db. db),
      BeginTransaction =
        (\<lambda>db w opts.
           \<lparr>rt_base = stores db, rt_buffer = [], rt_savepoints = [],
            rt_snapshot = ref_snapshot_armed opts, rt_tracked = []\<rparr>),
      perform = ref_perform\<rparr>"

subsection \<open>Notions the properties are stated with\<close>

text \<open>\<open>reaches E sp cs h\<close>: the handle constructed on the store pointer \<open>sp\<close> is in state
  \<open>h\<close> after the member calls \<open>cs\<close>, none of which faulted.\<close>

definition reaches :: "'e Engine \<Rightarrow> store_ptr \<Rightarrow> call list \<Rightarrow> 'e TxBridge \<Rightarrow> bool" where
  "reaches E sp cs h = (run E cs (TxBridge_new E sp) = Inr h)"

definition supplied :: "store_ptr \<Rightarrow> db_ptr option" where
  "supplied sp = (case sp of OptimisticTransactionDB p \<Rightarrow> p | TransactionDB p \<Rightarrow> p)"

text \<open>What a successful member call may change in the handle besides the transaction: the
  store pointers stay, every options object stays present or absent as it was, and the
  range-deletion flag of the read options stays.\<close>

definition changes :: "'e TxBridge \<Rightarrow> 'e TxBridge \<Rightarrow> bool" where
  "changes h h' =
     (odb h' = odb h \<and> tdb h' = tdb h \<and>
      (w_opts h' = None) = (w_opts h = None) \<and>
      map_option ro_ignore_range_deletions (r_opts h') =
        map_option ro_ignore_range_deletions (r_opts h) \<and>
      (o_tx_opts h' = None) = (o_tx_opts h = None) \<and>
      (p_tx_opts h' = None) = (p_tx_opts h = None))"

text \<open>\<open>forwards_once E h c status' h'\<close>: from the handle \<open>h\<close> with an active transaction, the
  engine performed the primitive \<open>c\<close> once on that transaction, the sink \<open>status'\<close> holds the
  code and the message of the status the engine returned for it, and \<open>h'\<close> is \<open>h\<close> with the
  transaction after that one primitive.\<close>

definition forwards_once :: "'e Engine \<Rightarrow> 'e TxBridge \<Rightarrow> engine_call \<Rightarrow> RdbStatus \<Rightarrow> 'e TxBridge \<Rightarrow> bool" where
  "forwards_once E h c status' h' =
     (case tx h of
        None \<Rightarrow> False
      | Some t \<Rightarrow>
          (case perform E (tx_state t) c of
             ((s, ret), e') \<Rightarrow>
               r_code status' = s_code s \<and> r_message status' = s_message s \<and>
               h' = h\<lparr>tx := Some \<lparr>tx_state = e', tx_log = tx_log t @ [c]\<rparr>\<rparr>))"

text \<open>What a write reaches outside the handle: the status sink and the transaction.\<close>

definition engine_effect :: "fault + (RdbStatus \<times> 'e TxBridge) \<Rightarrow> fault + (RdbStatus \<times> 'e Transaction option)" where
  "engine_effect r = (case r of Inl f \<Rightarrow> Inl f | Inr (status, h) \<Rightarrow> Inr (status, tx h))"

text \<open>The member calls that neither write to \<open>key\<close> nor undo, finalise or replace the
  transaction's buffered writes.\<close>

fun no_write_to :: "bytes \<Rightarrow> call \<Rightarrow> bool" where
  "no_write_to key (Put_key k v) = (k \<noteq> key)"
| "no_write_to key (Del_key k) = (k \<noteq> key)"
| "no_write_to key Start = False"
| "no_write_to key Commit_tx = False"
| "no_write_to key Rollback_tx = False"
| "no_write_to key Rollback_to_savepoint = False"
| "no_write_to key c = True"

text \<open>A handle on which every member but \<^verbatim>\<open>start\<close> runs without a fault: transaction,
  options and store are there.\<close>

definition ready :: "'e TxBridge \<Rightarrow> bool" where
  "ready h = (tx h \<noteq> None \<and> r_opts h \<noteq> None \<and> w_opts h \<noteq> None \<and> get_db h \<noteq> None)"

text \<open>The value the reference engine's transaction holds buffered for a key.\<close>

definition buffered :: "ref_tx TxBridge \<Rightarrow> bytes \<Rightarrow> bytes option option" where
  "buffered h k = (case tx h of None \<Rightarrow> None | Some t \<Rightarrow> map_of (rt_buffer (tx_state t)) k)"

subsection \<open>Concrete handles on the reference engine\<close>

definition demo_stores :: "db_ptr \<Rightarrow> (bytes \<times> bytes) list" where
  "demo_stores db = (if db = 1 then [(''k'', ''v'')] else [])"

definition demo_engine :: "ref_tx Engine" where
  "demo_engine = ref_engine demo_stores"

definition demo_calls :: "call list" where
  "demo_calls = [Verify_checksums False, Set_snapshot True, Start, Put_key ''a'' ''1'', Set_savepoint]"

definition demo_tx :: "ref_tx Transaction" where
  "demo_tx =
     \<lparr>tx_state =
        \<lparr>rt_base = [(''k'', ''v'')], rt_buffer = [(''a'', Some ''1'')],
         rt_savepoints = [[(''a'', Some ''1'')]], rt_snapshot = True, rt_tracked = []\<rparr>,
      tx_log = [Put ''a'' ''1'', SetSavePoint]\<rparr>"

definition demo_read_options :: ReadOptions where
  "demo_read_options =
     \<lparr>ro_verify_checksums = False, ro_fill_cache = True, ro_ignore_range_deletions = True\<rparr>"

definition demo_active :: "ref_tx TxBridge" where
  "demo_active =
     \<lparr>odb = Some 1, tdb = None, tx = Some demo_tx,
      w_opts = Some \<lparr>wo_sync = False, wo_disableWAL = False\<rparr>,
      r_opts = Some demo_read_options,
      o_tx_opts = Some \<lparr>o_set_snapshot = True\<rparr>, p_tx_opts = None\<rparr>"

definition demo_unstarted :: "ref_tx TxBridge" where
  "demo_unstarted =
     \<lparr>odb = None, tdb = Some 2, tx = None,
      w_opts = Some \<lparr>wo_sync = False, wo_disableWAL = False\<rparr>,
      r_opts = Some \<lparr>ro_verify_checksums = True, ro_fill_cache = False,
                      ro_ignore_range_deletions = True\<rparr>,
      o_tx_opts = None, p_tx_opts = Some \<lparr>p_set_snapshot = True\<rparr>\<rparr>"

section \<open>Properties\<close>

subsection \<open>One primitive per call\<close>

lemma invoke_eq:
  "invoke E t c =
     (fst (perform E (tx_state t) c),
      \<lparr>tx_state = snd (perform E (tx_state t) c), tx_log = tx_log t @ [c]\<rparr>)"
  by (simp add: invoke_def split: prod.splits)

lemma forward_active:
  "tx h = Some t \<Longrightarrow>
   forward E c status h =
     Inr (write_status (fst (fst (invoke E t c))) status, h\<lparr>tx := Some (snd (invoke E t c))\<rparr>)"
  by (simp add: forward_def split: prod.splits)

lemma get_active:
  "tx h = Some t \<Longrightarrow> r_opts h = Some ro \<Longrightarrow> get_db h = Some db \<Longrightarrow>
   get E key for_update status h =
     (let c = (if for_update then GetForUpdate ro (DefaultColumnFamily E db) (convert_slice key)
               else Get ro (convert_slice key))
      in Inr (Some (snd (fst (invoke E t c))),
              write_status (fst (fst (invoke E t c))) status,
              h\<lparr>tx := Some (snd (invoke E t c))\<rparr>))"
  by (simp add: get_def Let_def split: prod.splits)

subsection \<open>What the member calls leave unchanged\<close>

lemma changes_refl: "changes h h"
  by (simp add: changes_def)

lemma changes_trans: "changes h h1 \<Longrightarrow> changes h1 h2 \<Longrightarrow> changes h h2"
  by (simp add: changes_def)

lemma changes_tx: "changes h (h\<lparr>tx := x\<rparr>)"
  by (simp add: changes_def)

lemma forward_changes:
  "forward E c status h = Inr (st, h') \<Longrightarrow> changes h h' \<and> (tx h' = None) = (tx h = None)"
  by (auto simp: forward_def changes_tx split: option.splits prod.splits)

lemma get_changes:
  "get E key fu status h = Inr (ret, st, h') \<Longrightarrow> changes h h' \<and> (tx h' = None) = (tx h = None)"
  by (auto simp: get_def Let_def changes_tx split: option.splits prod.splits if_splits)

lemma handle_of_Inr: "handle_of r = Inr h' \<Longrightarrow> \<exists>st. r = Inr (st, h')"
  by (auto simp: handle_of_def split: sum.splits)

lemma step_changes:
  "step E c h = Inr h' \<Longrightarrow>
   changes h h' \<and>
   (if c = Start then tx h' \<noteq> None \<and> get_db h \<noteq> None else (tx h' = None) = (tx h = None))"
proof (cases c)
  case (Get_key k fu)
  assume "step E c h = Inr h'"
  with Get_key show ?thesis by (auto split: sum.splits dest: get_changes)
next
  case Start
  assume "step E c h = Inr h'"
  with Start show ?thesis
    by (auto simp: start_def get_db_def changes_tx split: option.splits)
next
  case (Set_snapshot v)
  assume "step E c h = Inr h'"
  with Set_snapshot show ?thesis
    by (auto simp: set_snapshot_def changes_def split: option.splits if_splits)
qed (auto simp: put_def del_def commit_def rollback_def rollback_to_savepoint_def
       pop_savepoint_def verify_checksums_def fill_cache_def clear_snapshot_def
       set_savepoint_def iterator_def get_w_opts_def changes_tx changes_refl
     split: option.splits
     dest!: handle_of_Inr forward_changes, (simp_all add: changes_def))

lemma run_induct:
  assumes "run E cs h = Inr h'" and "P h"
    and "\<And>c h1 h2. P h1 \<Longrightarrow> step E c h1 = Inr h2 \<Longrightarrow> P h2"
  shows "P h'"
  using assms(1,2)
proof (induction cs arbitrary: h)
  case Nil
  then show ?case by simp
next
  case (Cons c cs)
  then obtain h1 where s: "step E c h = Inr h1" and r: "run E cs h1 = Inr h'"
    by (auto split: sum.splits)
  from Cons.prems(2) s have "P h1" by (rule assms(3))
  with r show ?case by (rule Cons.IH)
qed

lemma run_changes: "run E cs h = Inr h' \<Longrightarrow> changes h h'"
  by (erule run_induct[where P = "changes h"])
     (auto intro: changes_refl changes_trans dest: step_changes)

lemma get_db_changes: "changes h h' \<Longrightarrow> get_db h' = get_db h"
  by (simp add: changes_def get_db_def)

lemma run_store_bound:
  assumes "run E cs h = Inr h'" and "tx h = None"
  shows "tx h' = None \<or> get_db h' \<noteq> None"
proof -
  have "changes h h' \<and> (tx h' = None \<or> get_db h \<noteq> None)"
  proof (rule run_induct[OF assms(1), where P = "\<lambda>x. changes h x \<and> (tx x = None \<or> get_db h \<noteq> None)"])
    show "changes h h \<and> (tx h = None \<or> get_db h \<noteq> None)"
      using assms(2) by (simp add: changes_refl)
  next
    fix c h1 h2
    assume p: "changes h h1 \<and> (tx h1 = None \<or> get_db h \<noteq> None)" and s: "step E c h1 = Inr h2"
    from step_changes[OF s] p have "changes h h2" by (blast intro: changes_trans)
    moreover from step_changes[OF s] p have "tx h2 = None \<or> get_db h \<noteq> None"
      by (auto simp: get_db_changes split: if_splits)
    ultimately show "changes h h2 \<and> (tx h2 = None \<or> get_db h \<noteq> None)" by simp
  qed
  then show ?thesis by (auto simp: get_db_changes)
qed

lemma run_tx_absent:
  assumes "run E cs h = Inr h'" and "tx h = None" and "Start \<notin> set cs"
  shows "tx h' = None"
  using assms
proof (induction cs arbitrary: h)
  case Nil
  then show ?case by simp
next
  case (Cons c cs)
  then obtain h1 where s: "step E c h = Inr h1" and r: "run E cs h1 = Inr h'"
    by (auto split: sum.splits)
  from Cons.prems have "c \<noteq> Start" and n: "Start \<notin> set cs" by auto
  with step_changes[OF s] Cons.prems(2) have "tx h1 = None" by simp
  from Cons.IH[OF r this n] show ?case .
qed

subsection \<open>Freshly constructed and reachable handles\<close>

lemma new_fields:
  "odb (TxBridge_new E (OptimisticTransactionDB p)) = p"
  "tdb (TxBridge_new E (OptimisticTransactionDB p)) = None"
  "o_tx_opts (TxBridge_new E (OptimisticTransactionDB p)) = Some (new_OptimisticTransactionOptions E)"
  "p_tx_opts (TxBridge_new E (OptimisticTransactionDB p)) = None"
  "odb (TxBridge_new E (TransactionDB p)) = None"
  "tdb (TxBridge_new E (TransactionDB p)) = p"
  "o_tx_opts (TxBridge_new E (TransactionDB p)) = None"
  "p_tx_opts (TxBridge_new E (TransactionDB p)) = Some (new_TransactionOptions E)"
  "tx (TxBridge_new E sp) = None"
  "w_opts (TxBridge_new E sp) = Some (new_WriteOptions E)"
  "r_opts (TxBridge_new E sp) = Some ((new_ReadOptions E)\<lparr>ro_ignore_range_deletions := True\<rparr>)"
  by (cases sp; simp add: set_ignore_range_deletions_def)+

lemma new_get_db: "get_db (TxBridge_new E sp) = supplied sp"
  by (cases sp) (simp_all add: get_db_def supplied_def set_ignore_range_deletions_def)

lemma reaches_changes: "reaches E sp cs h \<Longrightarrow> changes (TxBridge_new E sp) h"
  by (simp add: reaches_def run_changes)

lemma reaches_read_options:
  "reaches E sp cs h \<Longrightarrow> \<exists>ro. r_opts h = Some ro \<and> ro_ignore_range_deletions ro"
  by (drule reaches_changes) (auto simp: changes_def new_fields)

lemma reaches_write_options: "reaches E sp cs h \<Longrightarrow> \<exists>w. w_opts h = Some w"
  by (drule reaches_changes) (auto simp: changes_def new_fields)

lemma reaches_get_db: "reaches E sp cs h \<Longrightarrow> get_db h = supplied sp"
  by (drule reaches_changes) (simp add: get_db_changes new_get_db)

lemma reaches_store_bound: "reaches E sp cs h \<Longrightarrow> tx h = Some t \<Longrightarrow> \<exists>db. get_db h = Some db"
  using run_store_bound[of E cs "TxBridge_new E sp" h] by (auto simp: reaches_def new_fields)

lemma demo_reaches_active:
  "reaches demo_engine (OptimisticTransactionDB (Some 1)) demo_calls demo_active"
  by (simp add: reaches_def demo_calls_def demo_active_def demo_tx_def demo_read_options_def
      demo_engine_def ref_engine_def demo_stores_def set_ignore_range_deletions_def
      verify_checksums_def set_snapshot_def start_def put_def forward_def invoke_def
      set_savepoint_def handle_of_def convert_slice_def write_status_def blank_status_def
      ref_snapshot_armed_def ok_status_def)

lemma demo_reaches_unstarted:
  "reaches demo_engine (TransactionDB (Some 2)) [Fill_cache False, Set_snapshot True] demo_unstarted"
  by (simp add: reaches_def demo_unstarted_def demo_engine_def ref_engine_def
      set_ignore_range_deletions_def fill_cache_def set_snapshot_def)

subsection \<open>Invariants of the handle\<close>

text \<open>C6: in every state a handle can reach from either constructor, through any sequence
  of member calls (\<^verbatim>\<open>verify_checksums\<close>, \<^verbatim>\<open>fill_cache\<close>, \<^verbatim>\<open>set_snapshot\<close>, \<^verbatim>\<open>clear_snapshot\<close>,
  \<^verbatim>\<open>start\<close>, \<^verbatim>\<open>get\<close>, \<^verbatim>\<open>put\<close>, \<^verbatim>\<open>del\<close>, \<^verbatim>\<open>commit\<close>, \<^verbatim>\<open>rollback\<close>, the savepoint members, the
  iterator and assignments to the write options), the read options are present and their
  \<^verbatim>\<open>ignore_range_deletions\<close> is true.\<close>

theorem ignore_range_deletions_invariant:
  "reaches E sp cs h \<Longrightarrow> \<exists>ro. r_opts h = Some ro \<and> ro_ignore_range_deletions ro"
  by (rule reaches_read_options)

theorem ignore_range_deletions_invariant_witness:
  "reaches demo_engine (OptimisticTransactionDB (Some 1)) demo_calls demo_active \<and>
   (\<exists>ro. r_opts demo_active = Some ro \<and> ro_ignore_range_deletions ro)"
  using ignore_range_deletions_invariant[OF demo_reaches_active] demo_reaches_active
  by simp

text \<open>C7: construction on a store establishes the mutual-exclusion invariant. The
  constructor for an optimistic store leaves exactly the optimistic store pointer (the
  pointer it was given) and the optimistic transaction options non-null and the pessimistic
  store pointer and options null; the constructor for a pessimistic store does the
  converse. In both cases write options and read options are present. All of this holds
  in every state the handle reaches, and the transaction is absent as long as \<^verbatim>\<open>start\<close>
  has not been called.\<close>

theorem construction_mutual_exclusion:
  "supplied sp \<noteq> None \<Longrightarrow> reaches E sp cs h \<Longrightarrow>
   w_opts h \<noteq> None \<and> r_opts h \<noteq> None \<and>
   (case sp of
      OptimisticTransactionDB p \<Rightarrow>
        odb h = p \<and> odb h \<noteq> None \<and> o_tx_opts h \<noteq> None \<and>
        tdb h = None \<and> p_tx_opts h = None
    | TransactionDB p \<Rightarrow>
        tdb h = p \<and> tdb h \<noteq> None \<and> p_tx_opts h \<noteq> None \<and>
        odb h = None \<and> o_tx_opts h = None) \<and>
   (Start \<notin> set cs \<longrightarrow> tx h = None)"
proof -
  assume s: "supplied sp \<noteq> None" and r: "reaches E sp cs h"
  from reaches_changes[OF r] have c: "changes (TxBridge_new E sp) h" .
  from reaches_write_options[OF r] reaches_read_options[OF r]
  have "w_opts h \<noteq> None \<and> r_opts h \<noteq> None" by auto
  moreover from c s have
    "case sp of
       OptimisticTransactionDB p \<Rightarrow>
         odb h = p \<and> odb h \<noteq> None \<and> o_tx_opts h \<noteq> None \<and>
         tdb h = None \<and> p_tx_opts h = None
     | TransactionDB p \<Rightarrow>
         tdb h = p \<and> tdb h \<noteq> None \<and> p_tx_opts h \<noteq> None \<and>
         odb h = None \<and> o_tx_opts h = None"
    by (cases sp) (simp_all add: changes_def supplied_def new_fields del: TxBridge_new.simps)
  moreover have "Start \<notin> set cs \<longrightarrow> tx h = None"
    using r run_tx_absent[of E cs "TxBridge_new E sp" h] by (simp add: reaches_def new_fields)
  ultimately show ?thesis by simp
qed

theorem construction_mutual_exclusion_witness:
  "supplied (TransactionDB (Some 2)) \<noteq> None \<and>
   reaches demo_engine (TransactionDB (Some 2)) [Fill_cache False, Set_snapshot True] demo_unstarted \<and>
   Start \<notin> set [Fill_cache False, Set_snapshot True] \<and>
   w_opts demo_unstarted \<noteq> None \<and> r_opts demo_unstarted \<noteq> None \<and>
   odb demo_unstarted = None \<and> tdb demo_unstarted = Some 2 \<and>
   o_tx_opts demo_unstarted = None \<and> p_tx_opts demo_unstarted \<noteq> None \<and>
   tx demo_unstarted = None"
proof -
  have s: "supplied (TransactionDB (Some 2)) \<noteq> None"
    by (simp add: supplied_def)
  from construction_mutual_exclusion[OF s demo_reaches_unstarted] s demo_reaches_unstarted
  show ?thesis by simp
qed

text \<open>C9: for every handle constructed on a store by either constructor, in every state
  the handle reaches, \<^verbatim>\<open>get_db\<close> returns exactly the store pointer the handle was constructed
  with (the pessimistic store for the pessimistic constructor, the optimistic store for the
  optimistic one); the result is never null and is the same as right after construction.\<close>

theorem get_db_returns_supplied_store:
  "supplied sp \<noteq> None \<Longrightarrow> reaches E sp cs h \<Longrightarrow>
   get_db h = supplied sp \<and> get_db h \<noteq> None \<and> get_db h = get_db (TxBridge_new E sp) \<and>
   (case sp of
      OptimisticTransactionDB p \<Rightarrow> get_db h = p \<and> odb h = p
    | TransactionDB p \<Rightarrow> get_db h = p \<and> tdb h = p)"
proof -
  assume s: "supplied sp \<noteq> None" and r: "reaches E sp cs h"
  from reaches_get_db[OF r] have g: "get_db h = supplied sp" .
  from reaches_changes[OF r] have
    "case sp of
       OptimisticTransactionDB p \<Rightarrow> odb h = p
     | TransactionDB p \<Rightarrow> tdb h = p"
    by (cases sp) (simp_all add: changes_def new_fields del: TxBridge_new.simps)
  moreover from g have "get_db h = get_db (TxBridge_new E sp)"
    by (simp add: new_get_db)
  ultimately show ?thesis
    using g s by (cases sp) (simp_all add: supplied_def del: TxBridge_new.simps)
qed

theorem get_db_returns_supplied_store_witness:
  "supplied (OptimisticTransactionDB (Some 1)) \<noteq> None \<and>
   reaches demo_engine (OptimisticTransactionDB (Some 1)) demo_calls demo_active \<and>
   get_db demo_active = Some 1 \<and> odb demo_active = Some 1 \<and>
   supplied (OptimisticTransactionDB (Some 1)) = Some 1"
proof -
  have s: "supplied (OptimisticTransactionDB (Some 1)) \<noteq> None"
    by (simp add: supplied_def)
  from get_db_returns_supplied_store[OF s demo_reaches_active] demo_reaches_active
  show ?thesis by (simp add: supplied_def)
qed

subsection \<open>Snapshot control\<close>

text \<open>C2: \<^verbatim>\<open>set_snapshot\<close> depends on the phase. With an active transaction, \<open>True\<close> invokes
  the engine's \<^verbatim>\<open>SetSnapshot\<close> on the live transaction at once and \<open>False\<close> changes nothing.
  With no transaction, the value is stored in the transaction options of the handle's mode
  (the optimistic ones on a handle constructed on an optimistic store, the pessimistic ones
  on a handle constructed on a pessimistic store); the options of the other mode are absent
  and stay so, and nothing else in the handle changes.\<close>

theorem set_snapshot_phase_dependent:
  "reaches E sp cs h \<Longrightarrow>
   (case tx h of
      Some t \<Rightarrow>
        set_snapshot E True h =
          h\<lparr>tx := Some \<lparr>tx_state = snd (perform E (tx_state t) SetSnapshot),
                          tx_log = tx_log t @ [SetSnapshot]\<rparr>\<rparr> \<and>
        set_snapshot E False h = h
    | None \<Rightarrow>
        (case sp of
           OptimisticTransactionDB p \<Rightarrow>
             p_tx_opts h = None \<and>
             (\<exists>oo. o_tx_opts h = Some oo \<and>
                   set_snapshot E val h = h\<lparr>o_tx_opts := Some (oo\<lparr>o_set_snapshot := val\<rparr>)\<rparr>)
         | TransactionDB p \<Rightarrow>
             o_tx_opts h = None \<and>
             (\<exists>po. p_tx_opts h = Some po \<and>
                   set_snapshot E val h = h\<lparr>p_tx_opts := Some (po\<lparr>p_set_snapshot := val\<rparr>)\<rparr>)))"
proof -
  assume r: "reaches E sp cs h"
  from reaches_changes[OF r] have c: "changes (TxBridge_new E sp) h" .
  show ?thesis
  proof (cases "tx h")
    case (Some t)
    then show ?thesis by (simp add: set_snapshot_def invoke_eq)
  next
    case None
    with c show ?thesis
      by (cases sp) (auto simp: set_snapshot_def changes_def new_fields simp del: TxBridge_new.simps)
  qed
qed

theorem set_snapshot_phase_dependent_witness:
  "reaches demo_engine (TransactionDB (Some 2)) [Fill_cache False, Set_snapshot True] demo_unstarted \<and>
   tx demo_unstarted = None \<and> o_tx_opts demo_unstarted = None \<and>
   set_snapshot demo_engine False demo_unstarted =
     demo_unstarted\<lparr>p_tx_opts := Some \<lparr>p_set_snapshot = False\<rparr>\<rparr> \<and>
   reaches demo_engine (OptimisticTransactionDB (Some 1)) demo_calls demo_active \<and>
   tx demo_active = Some demo_tx \<and>
   set_snapshot demo_engine False demo_active = demo_active \<and>
   set_snapshot demo_engine True demo_active =
     demo_active\<lparr>tx := Some (demo_tx\<lparr>tx_log := tx_log demo_tx @ [SetSnapshot]\<rparr>)\<rparr>"
  using set_snapshot_phase_dependent[OF demo_reaches_unstarted, of False]
    set_snapshot_phase_dependent[OF demo_reaches_active]
    demo_reaches_unstarted demo_reaches_active
  by (simp add: demo_unstarted_def demo_active_def demo_tx_def demo_engine_def ref_engine_def)

text \<open>C8: with an active transaction, \<^verbatim>\<open>clear_snapshot\<close> invokes the engine's
  \<^verbatim>\<open>ClearSnapshot\<close> once on the live transaction and dereferences no null pointer; with no
  transaction it dereferences the null transaction pointer, so an active transaction is its
  precondition.\<close>

theorem clear_snapshot_requires_transaction:
  "(\<forall>t. tx h = Some t \<longrightarrow>
      clear_snapshot E h =
        Inr (h\<lparr>tx := Some \<lparr>tx_state = snd (perform E (tx_state t) ClearSnapshot),
                              tx_log = tx_log t @ [ClearSnapshot]\<rparr>\<rparr>)) \<and>
   (tx h = None \<longrightarrow> clear_snapshot E h = Inl NullDereference)"
  by (simp add: clear_snapshot_def invoke_eq)

theorem clear_snapshot_requires_transaction_witness:
  "tx demo_active = Some demo_tx \<and> rt_snapshot (tx_state demo_tx) \<and>
   clear_snapshot demo_engine demo_active =
     Inr (demo_active\<lparr>tx := Some \<lparr>tx_state = (tx_state demo_tx)\<lparr>rt_snapshot := False\<rparr>,
                                    tx_log = tx_log demo_tx @ [ClearSnapshot]\<rparr>\<rparr>) \<and>
   tx demo_unstarted = None \<and>
   clear_snapshot demo_engine demo_unstarted = Inl NullDereference"
  using clear_snapshot_requires_transaction[of demo_active demo_engine]
    clear_snapshot_requires_transaction[of demo_unstarted demo_engine]
  by (simp add: demo_unstarted_def demo_active_def demo_tx_def demo_engine_def ref_engine_def)

subsection \<open>Reads\<close>

text \<open>C1: in every reachable state with an active transaction, \<^verbatim>\<open>get\<close> performs one read
  through the current transaction with the handle's current read options in both branches:
  for \<^verbatim>\<open>for_update\<close> the engine's \<^verbatim>\<open>GetForUpdate\<close> on the default column family of the store
  the handle was constructed on, otherwise the engine's plain \<^verbatim>\<open>Get\<close> (the overload that
  takes no column family). The key is passed unchanged, the value buffer is returned and the
  engine's status is written to the sink.\<close>

theorem get_reads_through_transaction:
  "reaches E sp cs h \<Longrightarrow> tx h = Some t \<Longrightarrow>
   \<exists>ro db. r_opts h = Some ro \<and> get_db h = Some db \<and> supplied sp = Some db \<and>
     get E key for_update status h =
       (let c = (if for_update then GetForUpdate ro (DefaultColumnFamily E db) key
                 else Get ro key);
            r = perform E (tx_state t) c
        in Inr (Some (snd (fst r)), write_status (fst (fst r)) status,
                h\<lparr>tx := Some \<lparr>tx_state = snd r, tx_log = tx_log t @ [c]\<rparr>\<rparr>))"
proof -
  assume r: "reaches E sp cs h" and t: "tx h = Some t"
  from reaches_read_options[OF r] obtain ro where ro: "r_opts h = Some ro" by blast
  from reaches_store_bound[OF r t] obtain db where db: "get_db h = Some db" by blast
  from reaches_get_db[OF r] db have "supplied sp = Some db" by simp
  with ro db get_active[OF t ro db, of E key for_update status] show ?thesis
    by (simp add: Let_def invoke_eq convert_slice_def)
qed

theorem get_reads_through_transaction_witness:
  "reaches demo_engine (OptimisticTransactionDB (Some 1)) demo_calls demo_active \<and>
   tx demo_active = Some demo_tx \<and>
   r_opts demo_active = Some demo_read_options \<and> get_db demo_active = Some 1 \<and>
   get demo_engine ''a'' True blank_status demo_active =
     Inr (Some ''1'', \<lparr>r_code = kOk, r_message = []\<rparr>,
          demo_active\<lparr>tx := Some \<lparr>tx_state = (tx_state demo_tx)\<lparr>rt_tracked := [''a'']\<rparr>,
            tx_log = tx_log demo_tx @ [GetForUpdate demo_read_options 1 ''a'']\<rparr>\<rparr>)"
  using get_reads_through_transaction[OF demo_reaches_active, of demo_tx "''a''" True blank_status]
    demo_reaches_active
  by (simp add: demo_active_def demo_tx_def demo_engine_def ref_engine_def get_db_def
      ref_lookup_def ok_status_def write_status_def blank_status_def)

text \<open>C10: in every reachable state with an active transaction, \<^verbatim>\<open>get\<close> returns a
  non-null pointer to the value buffer whatever the engine's outcome is: the buffer holds
  what the engine left in it, and the outcome (found, not found, error) is in the status
  sink only.\<close>

theorem get_returns_buffer:
  "reaches E sp cs h \<Longrightarrow> tx h = Some t \<Longrightarrow>
   \<exists>c h'. get E key for_update status h =
     Inr (Some (snd (fst (perform E (tx_state t) c))),
          write_status (fst (fst (perform E (tx_state t) c))) status, h')"
proof -
  assume r: "reaches E sp cs h" and t: "tx h = Some t"
  from reaches_read_options[OF r] obtain ro where ro: "r_opts h = Some ro" by blast
  from reaches_store_bound[OF r t] obtain db where db: "get_db h = Some db" by blast
  show ?thesis
    unfolding get_active[OF t ro db] Let_def invoke_eq by auto
qed

theorem get_returns_buffer_witness:
  "reaches demo_engine (OptimisticTransactionDB (Some 1)) demo_calls demo_active \<and>
   tx demo_active = Some demo_tx \<and>
   (\<exists>h'. get demo_engine ''absent'' False blank_status demo_active =
      Inr (Some [], \<lparr>r_code = kNotFound, r_message = ''NotFound: ''\<rparr>, h'))"
  using get_returns_buffer[OF demo_reaches_active, of demo_tx "''absent''" False blank_status]
    demo_reaches_active
  by (simp add: demo_active_def demo_tx_def demo_engine_def ref_engine_def get_def Let_def
      invoke_eq ref_lookup_def not_found_status_def write_status_def blank_status_def
      convert_slice_def)

subsection \<open>Status reporting\<close>

lemma forward_once:
  "tx h = Some t \<Longrightarrow> \<exists>st h'. forward E c status h = Inr (st, h') \<and> forwards_once E h c st h'"
  by (simp add: forward_active invoke_eq forwards_once_def write_status_def split: prod.splits)

text \<open>C5: in every reachable state with an active transaction, each of \<^verbatim>\<open>put\<close>, \<^verbatim>\<open>del\<close>,
  \<^verbatim>\<open>commit\<close>, \<^verbatim>\<open>rollback\<close>, \<^verbatim>\<open>rollback_to_savepoint\<close>, \<^verbatim>\<open>pop_savepoint\<close> and \<^verbatim>\<open>get\<close> returns
  with the status sink holding the code and the message of the status the engine returned,
  and the transaction has gone through exactly one primitive of the engine: the one the
  member forwards, once.\<close>

theorem fallible_operations_forward_once:
  assumes "reaches E sp cs h" and "tx h = Some t"
  shows
    "(\<exists>st h'. put E key val status h = Inr (st, h') \<and> forwards_once E h (Put key val) st h') \<and>
     (\<exists>st h'. del E key status h = Inr (st, h') \<and> forwards_once E h (Delete key) st h') \<and>
     (\<exists>st h'. commit E status h = Inr (st, h') \<and> forwards_once E h Commit st h') \<and>
     (\<exists>st h'. rollback E status h = Inr (st, h') \<and> forwards_once E h Rollback st h') \<and>
     (\<exists>st h'. rollback_to_savepoint E status h = Inr (st, h') \<and>
        forwards_once E h RollbackToSavePoint st h') \<and>
     (\<exists>st h'. pop_savepoint E status h = Inr (st, h') \<and> forwards_once E h PopSavePoint st h') \<and>
     (\<exists>ro db ret st h'.
        r_opts h = Some ro \<and> get_db h = Some db \<and>
        get E key for_update status h = Inr (ret, st, h') \<and>
        forwards_once E h
          (if for_update then GetForUpdate ro (DefaultColumnFamily E db) key else Get ro key)
          st h')"
proof -
  note t = assms(2)
  have p: "\<exists>st h'. put E key val status h = Inr (st, h') \<and> forwards_once E h (Put key val) st h'"
    using forward_once[OF t] by (simp add: put_def convert_slice_def)
  have d: "\<exists>st h'. del E key status h = Inr (st, h') \<and> forwards_once E h (Delete key) st h'"
    using forward_once[OF t] by (simp add: del_def convert_slice_def)
  have c: "\<exists>st h'. commit E status h = Inr (st, h') \<and> forwards_once E h Commit st h'"
    using forward_once[OF t] by (simp add: commit_def)
  have rb: "\<exists>st h'. rollback E status h = Inr (st, h') \<and> forwards_once E h Rollback st h'"
    using forward_once[OF t] by (simp add: rollback_def)
  have rs: "\<exists>st h'. rollback_to_savepoint E status h = Inr (st, h') \<and>
      forwards_once E h RollbackToSavePoint st h'"
    using forward_once[OF t] by (simp add: rollback_to_savepoint_def)
  have ps: "\<exists>st h'. pop_savepoint E status h = Inr (st, h') \<and> forwards_once E h PopSavePoint st h'"
    using forward_once[OF t] by (simp add: pop_savepoint_def)
  from reaches_read_options[OF assms(1)] obtain ro where ro: "r_opts h = Some ro" by blast
  from reaches_store_bound[OF assms(1) t] obtain db where db: "get_db h = Some db" by blast
  have g: "\<exists>ro db ret st h'.
        r_opts h = Some ro \<and> get_db h = Some db \<and>
        get E key for_update status h = Inr (ret, st, h') \<and>
        forwards_once E h
          (if for_update then GetForUpdate ro (DefaultColumnFamily E db) key else Get ro key)
          st h'"
    using ro db t
    by (simp add: get_active[OF t ro db] Let_def invoke_eq forwards_once_def write_status_def
        convert_slice_def split: prod.splits)
  from p d c rb rs ps g show ?thesis by blast
qed

theorem fallible_operations_forward_once_witness:
  "reaches demo_engine (OptimisticTransactionDB (Some 1)) demo_calls demo_active \<and>
   tx demo_active = Some demo_tx \<and>
   (\<exists>st h'. pop_savepoint demo_engine blank_status demo_active = Inr (st, h') \<and>
      forwards_once demo_engine demo_active PopSavePoint st h' \<and>
      st = \<lparr>r_code = kOk, r_message = []\<rparr> \<and>
      (\<exists>st2 h2. pop_savepoint demo_engine st h' = Inr (st2, h2) \<and>
         st2 = \<lparr>r_code = kNotFound, r_message = ''NotFound: ''\<rparr>))"
  using fallible_operations_forward_once[OF demo_reaches_active, of demo_tx "''a''" "''1''" blank_status False]
    demo_reaches_active
  by (simp add: demo_active_def demo_tx_def demo_engine_def ref_engine_def pop_savepoint_def
      forward_def invoke_eq forwards_once_def write_status_def blank_status_def ok_status_def
      not_found_status_def)

subsection \<open>Writes\<close>

text \<open>C3, as the code has it: \<^verbatim>\<open>put\<close> and \<^verbatim>\<open>del\<close> do not read the handle's write options.
  Whatever the write options are at the moment of the call, the primitive invoked on the
  transaction, its arguments and the status written to the sink are the same, and the write
  options are left as they were.\<close>

theorem put_del_ignore_write_options:
  "engine_effect (put E key val status (h\<lparr>w_opts := w\<rparr>)) = engine_effect (put E key val status h) \<and>
   engine_effect (del E key status (h\<lparr>w_opts := w\<rparr>)) = engine_effect (del E key status h) \<and>
   (\<forall>st h'. put E key val status h = Inr (st, h') \<longrightarrow> w_opts h' = w_opts h) \<and>
   (\<forall>st h'. del E key status h = Inr (st, h') \<longrightarrow> w_opts h' = w_opts h)"
  by (auto simp: put_def del_def forward_def engine_effect_def split: option.splits prod.splits)

theorem put_del_ignore_write_options_witness:
  "put demo_engine ''b'' ''2'' blank_status demo_active =
     Inr (\<lparr>r_code = kOk, r_message = []\<rparr>,
          demo_active\<lparr>tx := Some \<lparr>tx_state = (tx_state demo_tx)\<lparr>rt_buffer := [(''b'', Some ''2''), (''a'', Some ''1'')]\<rparr>,
            tx_log = tx_log demo_tx @ [Put ''b'' ''2'']\<rparr>\<rparr>) \<and>
   del demo_engine ''a'' blank_status demo_active =
     Inr (\<lparr>r_code = kOk, r_message = []\<rparr>,
          demo_active\<lparr>tx := Some \<lparr>tx_state = (tx_state demo_tx)\<lparr>rt_buffer := [(''a'', None), (''a'', Some ''1'')]\<rparr>,
            tx_log = tx_log demo_tx @ [Delete ''a'']\<rparr>\<rparr>) \<and>
   w_opts demo_active = Some \<lparr>wo_sync = False, wo_disableWAL = False\<rparr>"
  using put_del_ignore_write_options[where E = demo_engine and key = "''b''" and val = "''2''"
      and status = blank_status and h = demo_active and w = None]
  by (simp add: demo_active_def demo_tx_def demo_engine_def ref_engine_def put_def del_def
      forward_def invoke_eq write_status_def blank_status_def ok_status_def convert_slice_def)

text \<open>C3 as stated fails: two handles that differ in nothing but their write options
  make the same \<^verbatim>\<open>put\<close> and the same \<^verbatim>\<open>del\<close> on the engine.\<close>

theorem put_write_options_counterexample:
  "engine_effect (put demo_engine ''b'' ''2'' blank_status
      (demo_active\<lparr>w_opts := Some \<lparr>wo_sync = True, wo_disableWAL = True\<rparr>\<rparr>)) =
   engine_effect (put demo_engine ''b'' ''2'' blank_status
      (demo_active\<lparr>w_opts := Some \<lparr>wo_sync = False, wo_disableWAL = False\<rparr>\<rparr>)) \<and>
   engine_effect (del demo_engine ''a'' blank_status
      (demo_active\<lparr>w_opts := Some \<lparr>wo_sync = True, wo_disableWAL = True\<rparr>\<rparr>)) =
   engine_effect (del demo_engine ''a'' blank_status
      (demo_active\<lparr>w_opts := Some \<lparr>wo_sync = False, wo_disableWAL = False\<rparr>\<rparr>))"
  by (simp add: demo_active_def put_def del_def forward_def engine_effect_def split: prod.splits)

subsection \<open>Read your own writes, on the reference engine\<close>

lemma step_ready:
  assumes "ready h" and "c \<noteq> Start"
  shows "\<exists>h'. step E c h = Inr h' \<and> ready h'"
proof -
  from assms(1) obtain t ro w db where
    f: "tx h = Some t" "r_opts h = Some ro" "w_opts h = Some w" "get_db h = Some db"
    by (auto simp: ready_def)
  have "\<exists>h'. step E c h = Inr h'"
  proof (cases c)
    case (Get_key k fu)
    then show ?thesis by (simp add: get_active[OF f(1,2,4)] Let_def)
  qed (use assms(2) f in \<open>simp_all add: put_def del_def commit_def rollback_def
        rollback_to_savepoint_def pop_savepoint_def forward_active handle_of_def
        verify_checksums_def fill_cache_def clear_snapshot_def set_savepoint_def
        iterator_def get_w_opts_def\<close>)
  then obtain h' where s: "step E c h = Inr h'" by blast
  from step_changes[OF s] assms have "ready h'"
    by (auto simp: ready_def changes_def get_db_changes[of h h'])
  with s show ?thesis by blast
qed

lemma ref_perform_buffered:
  assumes "map_of (rt_buffer e) key = Some (Some val)"
    and "case c of Put k v \<Rightarrow> k \<noteq> key | Delete k \<Rightarrow> k \<noteq> key | Commit \<Rightarrow> False
         | Rollback \<Rightarrow> False | RollbackToSavePoint \<Rightarrow> False | _ \<Rightarrow> True"
  shows "map_of (rt_buffer (snd (ref_perform e c))) key = Some (Some val)"
  using assms by (cases c) (simp_all split: list.splits)

lemma step_buffered:
  assumes "step (ref_engine S) c h = Inr h'" and "no_write_to key c"
    and "buffered h key = Some (Some val)"
  shows "buffered h' key = Some (Some val)"
proof -
  from assms(3) obtain t where t: "tx h = Some t"
    and b: "map_of (rt_buffer (tx_state t)) key = Some (Some val)"
    by (auto simp: buffered_def split: option.splits)
  have p: "perform (ref_engine S) = ref_perform" by (simp add: ref_engine_def)
  show ?thesis
  proof (cases c)
    case (Get_key k fu)
    with assms(1) t b show ?thesis
      by (auto simp: get_def Let_def invoke_eq p buffered_def ref_perform_buffered
          simp del: ref_perform.simps split: option.splits if_splits sum.splits prod.splits)
  next
    case (Set_snapshot v)
    with assms(1) t b show ?thesis
      by (auto simp: set_snapshot_def invoke_eq p buffered_def ref_perform_buffered
          simp del: ref_perform.simps)
  qed (use assms(1,2) t b in \<open>auto simp: put_def del_def pop_savepoint_def forward_active
        handle_of_def verify_checksums_def fill_cache_def clear_snapshot_def set_savepoint_def
        iterator_def get_w_opts_def invoke_eq p buffered_def ref_perform_buffered convert_slice_def
        simp del: ref_perform.simps split: option.splits\<close>)
qed

lemma run_buffered:
  assumes "ready h" and "buffered h key = Some (Some val)" and "\<forall>c\<in>set mid. no_write_to key c"
  shows "\<exists>h'. run (ref_engine S) mid h = Inr h' \<and> ready h' \<and> buffered h' key = Some (Some val)"
  using assms
proof (induction mid arbitrary: h)
  case Nil
  then show ?case by simp
next
  case (Cons c mid)
  from Cons.prems(3) have nw: "no_write_to key c" and rest: "\<forall>c\<in>set mid. no_write_to key c"
    by simp_all
  from nw have "c \<noteq> Start" by auto
  from step_ready[OF Cons.prems(1) this] obtain h1 where
    s: "step (ref_engine S) c h = Inr h1" and r1: "ready h1" by blast
  from step_buffered[OF s nw Cons.prems(2)] have b1: "buffered h1 key = Some (Some val)" .
  from Cons.IH[OF r1 b1 rest] s show ?case by simp
qed

text \<open>C4: on the reference engine, in every reachable state with an active transaction, a
  \<^verbatim>\<open>put\<close> of a value at a key reports ok, every sequence of member calls that neither writes
  to the key nor rolls back, commits or restarts the transaction then runs without a fault,
  and a \<^verbatim>\<open>get\<close> of the key after it (for update or not) returns the written value with an
  ok status.\<close>

theorem read_your_own_writes:
  assumes "reaches (ref_engine S) sp cs h" and "tx h = Some t"
    and "\<forall>c\<in>set mid. no_write_to key c"
  shows "\<exists>st1 h1 h2 st2 h3.
     put (ref_engine S) key val status h = Inr (st1, h1) \<and> r_code st1 = kOk \<and>
     run (ref_engine S) mid h1 = Inr h2 \<and>
     get (ref_engine S) key for_update status' h2 = Inr (Some val, st2, h3) \<and>
     r_code st2 = kOk"
proof -
  let ?E = "ref_engine S"
  have p: "perform ?E = ref_perform" by (simp add: ref_engine_def)
  from reaches_read_options[OF assms(1)] obtain ro where ro: "r_opts h = Some ro" by blast
  from reaches_write_options[OF assms(1)] obtain w where w: "w_opts h = Some w" by blast
  from reaches_store_bound[OF assms(1,2)] obtain db where db: "get_db h = Some db" by blast
  define h1 where "h1 = h\<lparr>tx := Some (snd (invoke ?E t (Put key val)))\<rparr>"
  define st1 where "st1 = write_status (fst (fst (invoke ?E t (Put key val)))) status"
  have put: "put ?E key val status h = Inr (st1, h1)"
    by (simp add: put_def forward_active[OF assms(2)] convert_slice_def h1_def st1_def)
  have ok1: "r_code st1 = kOk"
    by (simp add: st1_def invoke_eq p write_status_def ok_status_def)
  have "get_db h1 = get_db h"
    by (simp add: h1_def get_db_def)
  with ro w db have r1: "ready h1"
    by (simp add: ready_def) (simp add: h1_def)
  have b1: "buffered h1 key = Some (Some val)"
    by (simp add: h1_def buffered_def invoke_eq p)
  from run_buffered[OF r1 b1 assms(3)] obtain h2 where
    run: "run ?E mid h1 = Inr h2" and r2: "ready h2" and b2: "buffered h2 key = Some (Some val)"
    by blast
  from r2 obtain t2 ro2 db2 where
    f: "tx h2 = Some t2" "r_opts h2 = Some ro2" "get_db h2 = Some db2"
    by (auto simp: ready_def)
  from b2 f(1) have m: "map_of (rt_buffer (tx_state t2)) key = Some (Some val)"
    by (simp add: buffered_def)
  have "\<exists>st2 h3. get ?E key for_update status' h2 = Inr (Some val, st2, h3) \<and> r_code st2 = kOk"
    using m
    by (simp add: get_active[OF f] Let_def invoke_eq p ref_lookup_def convert_slice_def
        write_status_def ok_status_def)
  with put ok1 run show ?thesis by blast
qed

theorem read_your_own_writes_witness:
  "reaches (ref_engine demo_stores) (OptimisticTransactionDB (Some 1)) demo_calls demo_active \<and>
   tx demo_active = Some demo_tx \<and>
   no_write_to ''a'' (Put_key ''b'' ''2'') \<and> no_write_to ''a'' (Get_key ''k'' True) \<and>
   (\<exists>st1 h1 h2 st2 h3.
      put (ref_engine demo_stores) ''a'' ''9'' blank_status demo_active = Inr (st1, h1) \<and>
      r_code st1 = kOk \<and>
      run (ref_engine demo_stores) [Put_key ''b'' ''2'', Get_key ''k'' True] h1 = Inr h2 \<and>
      get (ref_engine demo_stores) ''a'' True blank_status h2 = Inr (Some ''9'', st2, h3) \<and>
      r_code st2 = kOk)"
proof -
  have r: "reaches (ref_engine demo_stores) (OptimisticTransactionDB (Some 1)) demo_calls demo_active"
    using demo_reaches_active by (simp add: demo_engine_def)
  have t: "tx demo_active = Some demo_tx"
    by (simp add: demo_active_def)
  have m: "\<forall>c\<in>set [Put_key ''b'' ''2'', Get_key ''k'' True]. no_write_to ''a'' c"
    by simp
  from read_your_own_writes[OF r t m, where val = "''9''" and status = blank_status
      and for_update = True and status' = blank_status] r t
  show ?thesis by simp
qed

end
